theory Spec2Isabelle
  imports Main
begin

section \<open>IcePatch server: the data the Updater works on\<close>

text \<open>
  Modelled from the spec: \<^verbatim>\<open>IceUtil::Time\<close> is not among the sources. A
  period is a whole number of time units, compared by \<^verbatim>\<open>!=\<close> and \<^verbatim>\<open><\<close>;
  the unit is taken to be the microsecond, so \<^verbatim>\<open>Time()\<close> is \<open>0\<close> and
  \<^verbatim>\<open>Time::seconds(n)\<close> is \<open>seconds n\<close>. The property value is a 32-bit
  \<^verbatim>\<open>Ice::Int\<close> and the count has 64 bits, so nothing wraps and unbounded
  integers are exact.
\<close>

type_synonym Time = int

definition seconds :: "int \<Rightarrow> Time" where
  "seconds n = n * 1000000"

text \<open>
  The Ice exceptions the three handlers of \<^verbatim>\<open>Updater::run\<close> tell apart.
  \<open>FileAccessException printed reason\<close> carries what \<^verbatim>\<open>operator<<\<close> writes for
  it and its \<^verbatim>\<open>reason\<close> member; \<open>OtherException printed\<close> stands for every
  other \<^verbatim>\<open>Ice::Exception\<close> and carries what \<^verbatim>\<open>operator<<\<close> writes for it.
\<close>

datatype exn =
    FileAccessException string string
  | BusyException
  | OtherException string

text \<open>
  How a call ends when it does not return: an exception is thrown, or an
  \<^verbatim>\<open>assert\<close> fails and the process is aborted.
\<close>

datatype abrupt = Throw exn | Abort

text \<open>
  A \<^verbatim>\<open>FileDescPtr\<close>. A \<open>DirectoryDesc\<close> holds the proxy \<^verbatim>\<open>directory\<close>,
  given here by what \<^verbatim>\<open>getContents()\<close> does on it: throw, or return the
  descriptors of the children. A \<open>RegularDesc\<close> holds the proxy \<^verbatim>\<open>regular\<close>,
  given by its identity and by what \<^verbatim>\<open>getBZ2Size()\<close> does on it:
  \<open>None\<close> when it returns, \<open>Some e\<close> when it throws \<open>e\<close>. \<open>UnknownDesc\<close> is a
  descriptor on which both \<^verbatim>\<open>dynamicCast\<close>s give null.
\<close>

datatype FileDesc =
    DirectoryDesc "exn + FileDesc list"
  | RegularDesc string "exn option"
  | UnknownDesc

text \<open>What the Updater thread does that can be seen from outside.\<close>

datatype event =
    GetBZ2Size string
  | LogError string
  | TimedWait Time

subsection \<open>\<^verbatim>\<open>Updater::cleanup\<close>\<close>

text \<open>
  \<open>cleanup d fileDescSeq\<close> is the call \<^verbatim>\<open>cleanup(fileDescSeq)\<close> with
  \<^verbatim>\<open>_destroy\<close> equal to \<open>d\<close>; it gives how the call ends (\<open>None\<close>: it returns)
  and the events it produced. \<open>cleanup_loop\<close> is the \<^verbatim>\<open>for\<close> loop from the
  iterator position on. The method only reads \<^verbatim>\<open>_destroy\<close>, and the caller
  holds the monitor that the only writer of the field needs, so \<open>d\<close> is the same
  at every level of one call.
\<close>

fun cleanup :: "bool \<Rightarrow> FileDesc list \<Rightarrow> abrupt option \<times> event list"
  and cleanup_loop :: "bool \<Rightarrow> FileDesc list \<Rightarrow> abrupt option \<times> event list"
  and cleanup_entry :: "bool \<Rightarrow> FileDesc \<Rightarrow> abrupt option \<times> event list"
where
  "cleanup d fileDescSeq = (if d then (None, []) else cleanup_loop d fileDescSeq)"
| "cleanup_loop d [] = (None, [])"
| "cleanup_loop d (p # ps) =
     (case cleanup_entry d p of
        (Some a, es) \<Rightarrow> (Some a, es)
      | (None, es) \<Rightarrow> (case cleanup_loop d ps of (r, es') \<Rightarrow> (r, es @ es')))"
| "cleanup_entry d (DirectoryDesc (Inl e)) = (Some (Throw e), [])"
| "cleanup_entry d (DirectoryDesc (Inr contents)) = cleanup d contents"
| "cleanup_entry d (RegularDesc regular None) = (None, [GetBZ2Size regular])"
| "cleanup_entry d (RegularDesc regular (Some e)) = (Some (Throw e), [GetBZ2Size regular])"
| "cleanup_entry d UnknownDesc = (Some Abort, [])"

subsection \<open>The \<^verbatim>\<open>Updater\<close> object\<close>

text \<open>
  The two fields of the class that change what it does: \<^verbatim>\<open>_updatePeriod\<close>
  and \<^verbatim>\<open>_destroy\<close>. The adapter is the environment of a pass (below) and the
  logger is where \<open>LogError\<close> events go.
\<close>

record Updater =
  updatePeriod :: Time
  destroy_flag :: bool

definition new_Updater :: "Time \<Rightarrow> Updater" where
  "new_Updater period = \<lparr>updatePeriod = period, destroy_flag = False\<rparr>"

text \<open>
  What one pass meets. \<open>topDesc\<close> is how resolving the root ends, from
  \<^verbatim>\<open>pathToIdentity(".")\<close> to \<^verbatim>\<open>top->describe()\<close>: an exception of one of the
  remote calls, a failed \<^verbatim>\<open>assert(top)\<close>, or the descriptor returned.
  \<open>isShutdownFromInterrupt\<close> is what \<^verbatim>\<open>Application::isShutdownFromInterrupt()\<close>
  answers in the handler.
\<close>

record pass_env =
  topDesc :: "abrupt + FileDesc"
  isShutdownFromInterrupt :: bool

text \<open>The body of the \<^verbatim>\<open>try\<close> block of \<^verbatim>\<open>Updater::run\<close>.\<close>

fun try_block :: "bool \<Rightarrow> abrupt + FileDesc \<Rightarrow> abrupt option \<times> event list" where
  "try_block d (Inl a) = (Some a, [])"
| "try_block d (Inr (DirectoryDesc (Inl e))) = (Some (Throw e), [])"
| "try_block d (Inr (DirectoryDesc (Inr contents))) = cleanup d contents"
| "try_block d (Inr (RegularDesc regular r)) = (Some Abort, [])"
| "try_block d (Inr UnknownDesc) = (Some Abort, [])"

text \<open>
  The three \<^verbatim>\<open>catch\<close> clauses, in the order of the source; the result is what
  goes to the logger. An aborted process logs nothing.
\<close>

fun catch_clauses :: "bool \<Rightarrow> abrupt option \<Rightarrow> event list" where
  "catch_clauses shutdown None = []"
| "catch_clauses shutdown (Some Abort) = []"
| "catch_clauses shutdown (Some (Throw (FileAccessException printed reason))) =
     [LogError (''exception during update:\<newline>'' @ printed @ '':\<newline>'' @ reason)]"
| "catch_clauses shutdown (Some (Throw BusyException)) = []"
| "catch_clauses shutdown (Some (Throw (OtherException printed))) =
     (if \<not> shutdown
      then [LogError (''exception during update:\<newline>'' @ printed)]
      else [])"

subsection \<open>The worker thread and the monitor\<close>

text \<open>
  Modelled from the spec: \<^verbatim>\<open>IceUtil::Monitor\<close> is not among the sources. It is
  a mutex with a condition: \<^verbatim>\<open>Lock sync(*this)\<close> takes the mutex until the end
  of the scope and blocks while another thread has it; \<^verbatim>\<open>timedWait\<close> releases
  it while it waits and takes it again before it returns; \<^verbatim>\<open>notify\<close> wakes a
  waiting thread. \<^verbatim>\<open>Updater::run\<close> takes the monitor in its first statement,
  so the worker holds it everywhere in \<^verbatim>\<open>run\<close> except inside
  \<^verbatim>\<open>timedWait\<close>.

  Where the thread that executes \<^verbatim>\<open>Updater::run\<close> stands:
  \<^item> \<open>NotStarted\<close>: before \<^verbatim>\<open>run\<close> has taken the monitor;
  \<^item> \<open>LoopTop\<close>: at \<^verbatim>\<open>while(!_destroy)\<close>, holding the monitor;
  \<^item> \<open>InPass\<close>: inside the loop body, up to \<^verbatim>\<open>timedWait\<close>, holding the monitor;
  \<^item> \<open>Waiting\<close>: inside \<^verbatim>\<open>timedWait\<close>, the monitor released;
  \<^item> \<open>Woken\<close>: notified or timed out, about to take the monitor again;
  \<^item> \<open>Returned\<close>: \<^verbatim>\<open>run\<close> has returned and released the monitor;
  \<^item> \<open>Aborted\<close>: an \<^verbatim>\<open>assert\<close> failed, the process is gone.
\<close>

datatype worker_pc = NotStarted | LoopTop | InPass | Waiting | Woken | Returned | Aborted

fun holds_monitor :: "worker_pc \<Rightarrow> bool" where
  "holds_monitor LoopTop = True"
| "holds_monitor InPass = True"
| "holds_monitor pc = False"

record system =
  updater :: Updater
  worker :: worker_pc
  trace :: "event list"

definition init :: "Time \<Rightarrow> system" where
  "init period = \<lparr>updater = new_Updater period, worker = NotStarted, trace = []\<rparr>"

text \<open>
  \<^verbatim>\<open>Updater::destroy\<close>, called by another thread. Its first statement takes the
  monitor, so it cannot proceed (\<open>None\<close>) while the worker holds it; once it has
  the monitor it sets \<^verbatim>\<open>_destroy\<close>, and \<^verbatim>\<open>notify()\<close> wakes the worker if it
  waits. Nothing between taking and releasing the monitor can block, so the call
  is one step.
\<close>

definition destroy :: "system \<Rightarrow> system option" where
  "destroy s =
     (if holds_monitor (worker s) \<or> worker s = Aborted then None
      else Some (s\<lparr>updater := (updater s)\<lparr>destroy_flag := True\<rparr>,
                   worker := (if worker s = Waiting then Woken else worker s)\<rparr>))"

text \<open>
  The loop body of \<^verbatim>\<open>Updater::run\<close>: the \<^verbatim>\<open>try\<close> block, the handlers,
  \<^verbatim>\<open>if(_destroy) break;\<close> and \<^verbatim>\<open>timedWait(_updatePeriod)\<close>, which
  releases the monitor.
\<close>

definition loop_body :: "system \<Rightarrow> pass_env \<Rightarrow> system" where
  "loop_body s env =
     (case try_block (destroy_flag (updater s)) (topDesc env) of
        (r, es) \<Rightarrow>
          if r = Some Abort then s\<lparr>worker := Aborted, trace := trace s @ es\<rparr>
          else if destroy_flag (updater s)
          then s\<lparr>worker := Returned,
                 trace := trace s @ es @ catch_clauses (isShutdownFromInterrupt env) r\<rparr>
          else s\<lparr>worker := Waiting,
                 trace := trace s @ es @ catch_clauses (isShutdownFromInterrupt env) r
                          @ [TimedWait (updatePeriod (updater s))]\<rparr>)"

text \<open>
  The steps of the two threads. \<open>Start\<close>: \<^verbatim>\<open>run\<close> takes the monitor;
  \<open>Check\<close>: the loop condition; \<open>Pass env\<close>: one loop body against \<open>env\<close>;
  \<open>Timeout\<close>: the period elapses in \<^verbatim>\<open>timedWait\<close>; \<open>Resume\<close>: the woken worker
  takes the monitor again; \<open>Destroy\<close>: a call of \<^verbatim>\<open>destroy()\<close>.
  \<open>None\<close> means the step cannot be taken in that state.
\<close>

datatype action = Start | Check | Pass pass_env | Timeout | Resume | Destroy

fun step :: "system \<Rightarrow> action \<Rightarrow> system option" where
  "step s Start = (if worker s = NotStarted then Some (s\<lparr>worker := LoopTop\<rparr>) else None)"
| "step s Check =
     (if worker s = LoopTop
      then Some (s\<lparr>worker := (if destroy_flag (updater s) then Returned else InPass)\<rparr>)
      else None)"
| "step s (Pass env) = (if worker s = InPass then Some (loop_body s env) else None)"
| "step s Timeout = (if worker s = Waiting then Some (s\<lparr>worker := Woken\<rparr>) else None)"
| "step s Resume = (if worker s = Woken then Some (s\<lparr>worker := LoopTop\<rparr>) else None)"
| "step s Destroy = destroy s"

fun exec :: "system \<Rightarrow> action list \<Rightarrow> system option" where
  "exec s [] = Some s"
| "exec s (a # as) = (case step s a of None \<Rightarrow> None | Some s' \<Rightarrow> exec s' as)"

section \<open>\<^verbatim>\<open>Server::run\<close>\<close>

definition EXIT_SUCCESS :: int where "EXIT_SUCCESS = 0"
definition EXIT_FAILURE :: int where "EXIT_FAILURE = 1"

text \<open>
  What \<^verbatim>\<open>run\<close> reads: the two string properties, the integer property (absent
  when it is not set), and what \<^verbatim>\<open>chdir\<close> does (\<open>Some msg\<close>: it fails and
  \<^verbatim>\<open>strerror(errno)\<close> is \<open>msg\<close>).
\<close>

record config =
  Endpoints :: string
  Directory :: string
  UpdatePeriod :: "int option"
  chdir_error :: "string option"

text \<open>The calls \<^verbatim>\<open>run\<close> makes on the communicator, the adapter and the updater.\<close>

datatype call =
    CreateObjectAdapter
  | AddServantLocator
  | NewUpdater Time
  | StartUpdater
  | ShutdownOnInterrupt
  | Activate
  | WaitForShutdown
  | IgnoreInterrupt
  | DestroyUpdater
  | JoinUpdater

record outcome =
  status :: int
  cerr :: string
  cout :: string
  calls :: "call list"

definition usage :: "string \<Rightarrow> string" where
  "usage appName =
     ''Usage: '' @ appName @ '' [options]\<newline>'' @
     ''Options:\<newline>'' @
     ''-h, --help           Show this message.\<newline>'' @
     ''-v, --version        Display the Ice version.\<newline>''"

text \<open>
  The \<^verbatim>\<open>for\<close> loop over \<^verbatim>\<open>argv[1]\<close>, \<^verbatim>\<open>argv[2]\<close>, ...: \<open>Some\<close> when an
  iteration returns from \<^verbatim>\<open>run\<close>, \<open>None\<close> when the loop ends. Each of the
  three branches returns, so no iteration is followed by another.
\<close>

fun options_loop :: "string \<Rightarrow> string \<Rightarrow> string list \<Rightarrow> outcome option" where
  "options_loop appName version [] = None"
| "options_loop appName version (arg # args) =
     (if arg = ''-h'' \<or> arg = ''--help''
      then Some \<lparr>status = EXIT_SUCCESS, cerr = usage appName, cout = [], calls = []\<rparr>
      else if arg = ''-v'' \<or> arg = ''--version''
      then Some \<lparr>status = EXIT_SUCCESS, cerr = [], cout = version @ ''\<newline>'', calls = []\<rparr>
      else Some \<lparr>status = EXIT_FAILURE,
                  cerr = appName @ '': unknown option `'' @ arg @ [CHR 0x27] @ ''\<newline>''
                         @ usage appName,
                  cout = [], calls = []\<rparr>)"

text \<open>
  Modelled from the spec: \<^verbatim>\<open>Ice::Properties\<close> is not among the sources. The
  update period is read with a default that applies when the property is not
  set.
\<close>

definition getPropertyAsIntWithDefault :: "int option \<Rightarrow> int \<Rightarrow> int" where
  "getPropertyAsIntWithDefault property dflt = (case property of None \<Rightarrow> dflt | Some v \<Rightarrow> v)"

text \<open>
  ``Start the updater if an update period is set'': the pointer \<^verbatim>\<open>updater\<close>
  (\<open>None\<close>: null) and the calls made.
\<close>

definition start_updater :: "int \<Rightarrow> Updater option \<times> call list" where
  "start_updater P =
     (let period = seconds P in
      if period \<noteq> 0
      then (let period' = (if period < seconds 10 then seconds 10 else period)
            in (Some (new_Updater period'), [NewUpdater period', StartUpdater]))
      else (None, []))"

text \<open>
  \<^verbatim>\<open>Server::run\<close> with \<^verbatim>\<open>appName()\<close>, \<^verbatim>\<open>ICE_STRING_VERSION\<close>, the argument
  vector (\<^verbatim>\<open>argv[0]\<close> first) and the configuration. \<open>calls\<close> lists the calls in
  the order in which they are made, each taken to return.
\<close>

definition Server_run :: "string \<Rightarrow> string \<Rightarrow> string list \<Rightarrow> config \<Rightarrow> outcome" where
  "Server_run appName version argv cfg =
     (case options_loop appName version (drop 1 argv) of
        Some r \<Rightarrow> r
      | None \<Rightarrow>
          if Endpoints cfg = []
          then \<lparr>status = EXIT_FAILURE,
                cerr = appName @ '': property `IcePatch.Endpoints' is not set\<newline>'',
                cout = [], calls = []\<rparr>
          else (case (if Directory cfg \<noteq> [] then chdir_error cfg else None) of
                  Some strerror \<Rightarrow>
                    \<lparr>status = EXIT_FAILURE,
                     cerr = appName @ '': cannot change to directory `'' @ Directory cfg
                            @ [CHR 0x27] @ '': '' @ strerror @ ''\<newline>'',
                     cout = [], calls = []\<rparr>
                | None \<Rightarrow>
                   (case start_updater (getPropertyAsIntWithDefault (UpdatePeriod cfg) 60) of
                      (updaterPtr, started) \<Rightarrow>
                        \<lparr>status = EXIT_SUCCESS, cerr = [], cout = [],
                         calls = [CreateObjectAdapter, AddServantLocator] @ started
                                 @ [ShutdownOnInterrupt, Activate, WaitForShutdown,
                                    IgnoreInterrupt]
                                 @ (if updaterPtr \<noteq> None then [DestroyUpdater, JoinUpdater]
                                    else [])\<rparr>)))"

section \<open>Observations\<close>

text \<open>The entries written to the logger, in order.\<close>

fun log_entries :: "event list \<Rightarrow> string list" where
  "log_entries [] = []"
| "log_entries (LogError msg # es) = msg # log_entries es"
| "log_entries (e # es) = log_entries es"

text \<open>The proxies on which \<^verbatim>\<open>getBZ2Size()\<close> was invoked, in order.\<close>

fun getBZ2Size_calls :: "event list \<Rightarrow> string list" where
  "getBZ2Size_calls [] = []"
| "getBZ2Size_calls (GetBZ2Size regular # es) = regular # getBZ2Size_calls es"
| "getBZ2Size_calls (e # es) = getBZ2Size_calls es"

text \<open>The periods of the \<^verbatim>\<open>Updater\<close> objects constructed, in order.\<close>

fun updaters_constructed :: "call list \<Rightarrow> Time list" where
  "updaters_constructed [] = []"
| "updaters_constructed (NewUpdater period # cs) = period # updaters_constructed cs"
| "updaters_constructed (c # cs) = updaters_constructed cs"

text \<open>
  \<^verbatim>\<open>Server::run\<close> gets as far as the adapter: there is no option on the command
  line, the endpoints are set, and the working directory, if one is set, can be
  entered.
\<close>

definition startup_ok :: "string list \<Rightarrow> config \<Rightarrow> bool" where
  "startup_ok argv cfg =
     (length argv \<le> 1 \<and> Endpoints cfg \<noteq> [] \<and> (Directory cfg = [] \<or> chdir_error cfg = None))"

text \<open>
  \<open>quiet p\<close>: every call made on \<open>p\<close> and below it returns, and every descriptor
  below it is a directory or a regular file. \<open>regulars p\<close>: the regular files on
  \<open>p\<close> and below it, in the order of the listings, directories entered where
  they stand.
\<close>

fun quiet :: "FileDesc \<Rightarrow> bool"
  and quiet_list :: "FileDesc list \<Rightarrow> bool"
where
  "quiet (DirectoryDesc (Inl e)) = False"
| "quiet (DirectoryDesc (Inr contents)) = quiet_list contents"
| "quiet (RegularDesc regular r) = (r = None)"
| "quiet UnknownDesc = False"
| "quiet_list [] = True"
| "quiet_list (p # ps) = (quiet p \<and> quiet_list ps)"

fun regulars :: "FileDesc \<Rightarrow> string list"
  and regulars_list :: "FileDesc list \<Rightarrow> string list"
where
  "regulars (DirectoryDesc (Inl e)) = []"
| "regulars (DirectoryDesc (Inr contents)) = regulars_list contents"
| "regulars (RegularDesc regular r) = [regular]"
| "regulars UnknownDesc = []"
| "regulars_list [] = []"
| "regulars_list (p # ps) = regulars p @ regulars_list ps"

text \<open>
  Where in the tree a failure is raised. A node sits below a chain of
  directories, outermost first; at each level it has siblings listed before it
  and siblings listed after it. \<open>plug levels node\<close> is the outermost directory
  of that chain (the node itself when the chain is empty).
\<close>

type_synonym level = "FileDesc list \<times> FileDesc list"

fun plug :: "level list \<Rightarrow> FileDesc \<Rightarrow> FileDesc" where
  "plug [] node = node"
| "plug ((before, after) # levels) node =
     DirectoryDesc (Inr (before @ plug levels node # after))"

text \<open>
  \<open>quiet_before levels\<close>: everything listed before the node, at every level, is
  quiet. \<open>regulars_before levels\<close>: the regular files listed before the node, in
  the order of a traversal that enters each directory where it stands.
\<close>

fun quiet_before :: "level list \<Rightarrow> bool" where
  "quiet_before [] = True"
| "quiet_before ((before, after) # levels) = (quiet_list before \<and> quiet_before levels)"

fun regulars_before :: "level list \<Rightarrow> string list" where
  "regulars_before [] = []"
| "regulars_before ((before, after) # levels) = regulars_list before @ regulars_before levels"

text \<open>
  \<open>raising node\<close>: the exception thrown by the call made on the node itself
  (\<^verbatim>\<open>getContents()\<close> on a directory, \<^verbatim>\<open>getBZ2Size()\<close> on a regular file), if
  it throws. \<open>own_call node\<close>: the \<^verbatim>\<open>getBZ2Size()\<close> call made on the node itself.
\<close>

fun raising :: "FileDesc \<Rightarrow> exn option" where
  "raising (DirectoryDesc (Inl e)) = Some e"
| "raising (DirectoryDesc (Inr contents)) = None"
| "raising (RegularDesc regular r) = r"
| "raising UnknownDesc = None"

fun own_call :: "FileDesc \<Rightarrow> string list" where
  "own_call (RegularDesc regular r) = [regular]"
| "own_call p = []"

fun is_directory :: "FileDesc \<Rightarrow> bool" where
  "is_directory (DirectoryDesc c) = True"
| "is_directory p = False"

text \<open>
  Where the worker can stand once \<^verbatim>\<open>_destroy\<close> is set: not in a pass, and not
  waiting (\<^verbatim>\<open>notify()\<close> has woken it).
\<close>

fun stopping :: "worker_pc \<Rightarrow> bool" where
  "stopping NotStarted = True"
| "stopping LoopTop = True"
| "stopping Woken = True"
| "stopping Returned = True"
| "stopping pc = False"

section \<open>Properties of \<^verbatim>\<open>Server::run\<close>\<close>

lemma options_loop_calls: "options_loop a v args = Some r \<Longrightarrow> calls r = []"
  by (cases args) (auto split: if_splits)

lemma start_updater_zero: "start_updater 0 = (None, [])"
  by (simp add: start_updater_def seconds_def)

lemma start_updater_floor:
  "P \<noteq> 0 \<Longrightarrow> P < 10 \<Longrightarrow>
   start_updater P = (Some (new_Updater (seconds 10)), [NewUpdater (seconds 10), StartUpdater])"
  by (simp add: start_updater_def seconds_def Let_def)

lemma start_updater_above:
  "10 \<le> P \<Longrightarrow>
   start_updater P = (Some (new_Updater (seconds P)), [NewUpdater (seconds P), StartUpdater])"
  by (simp add: start_updater_def seconds_def Let_def)

lemma Server_run_started:
  "startup_ok argv cfg \<Longrightarrow>
   calls (Server_run a v argv cfg) =
     [CreateObjectAdapter, AddServantLocator]
     @ snd (start_updater (getPropertyAsIntWithDefault (UpdatePeriod cfg) 60))
     @ [ShutdownOnInterrupt, Activate, WaitForShutdown, IgnoreInterrupt]
     @ (if fst (start_updater (getPropertyAsIntWithDefault (UpdatePeriod cfg) 60)) \<noteq> None
        then [DestroyUpdater, JoinUpdater] else [])"
  by (cases argv; cases "tl argv")
     (auto simp: startup_ok_def Server_run_def split: prod.splits)

lemma Server_run_calls_cases:
  "calls (Server_run a v argv cfg) = [] \<or>
   calls (Server_run a v argv cfg) =
     [CreateObjectAdapter, AddServantLocator]
     @ snd (start_updater (getPropertyAsIntWithDefault (UpdatePeriod cfg) 60))
     @ [ShutdownOnInterrupt, Activate, WaitForShutdown, IgnoreInterrupt]
     @ (if fst (start_updater (getPropertyAsIntWithDefault (UpdatePeriod cfg) 60)) \<noteq> None
        then [DestroyUpdater, JoinUpdater] else [])"
  by (auto simp: Server_run_def split: option.splits prod.splits dest: options_loop_calls)

lemma updaters_constructed_append [simp]:
  "updaters_constructed (xs @ ys) = updaters_constructed xs @ updaters_constructed ys"
  by (induction xs rule: updaters_constructed.induct) auto

text \<open>
  C2. Let \<open>P\<close> be the configured update period (the value of the property, 60
  when it is not set). If \<open>P = 0\<close> the pointer stays null and no run of the
  server constructs an Updater, whatever the command line and the rest of the
  configuration. If \<open>0 < P < 10\<close> the Updater is constructed with period exactly
  10 seconds, and if \<open>10 \<le> P\<close> with period exactly \<open>P\<close> seconds; a run that gets
  as far as the adapter constructs exactly that one Updater.
\<close>

theorem C2_effective_period:
  assumes "getPropertyAsIntWithDefault (UpdatePeriod cfg) 60 = P"
  shows "(P = 0 \<longrightarrow>
            fst (start_updater P) = None \<and>
            updaters_constructed (calls (Server_run appName version argv cfg)) = [])
       \<and> (0 < P \<and> P < 10 \<longrightarrow>
            fst (start_updater P) = Some (new_Updater (seconds 10)) \<and>
            updatePeriod (new_Updater (seconds 10)) = seconds 10 \<and>
            (startup_ok argv cfg \<longrightarrow>
               updaters_constructed (calls (Server_run appName version argv cfg)) = [seconds 10]))
       \<and> (10 \<le> P \<longrightarrow>
            fst (start_updater P) = Some (new_Updater (seconds P)) \<and>
            updatePeriod (new_Updater (seconds P)) = seconds P \<and>
            (startup_ok argv cfg \<longrightarrow>
               updaters_constructed (calls (Server_run appName version argv cfg)) = [seconds P]))"
proof (intro conjI impI)
  assume "P = 0"
  then show "fst (start_updater P) = None" by (simp add: start_updater_zero)
  from \<open>P = 0\<close> show "updaters_constructed (calls (Server_run appName version argv cfg)) = []"
    using Server_run_calls_cases [of appName version argv cfg] assms
    by (auto simp: start_updater_zero)
next
  assume "0 < P \<and> P < 10"
  then show "fst (start_updater P) = Some (new_Updater (seconds 10))"
    by (simp add: start_updater_floor)
  show "updatePeriod (new_Updater (seconds 10)) = seconds 10" by (simp add: new_Updater_def)
next
  assume "0 < P \<and> P < 10" and "startup_ok argv cfg"
  then show "updaters_constructed (calls (Server_run appName version argv cfg)) = [seconds 10]"
    using assms by (simp add: Server_run_started start_updater_floor)
next
  assume "10 \<le> P"
  then show "fst (start_updater P) = Some (new_Updater (seconds P))"
    by (simp add: start_updater_above)
  show "updatePeriod (new_Updater (seconds P)) = seconds P" by (simp add: new_Updater_def)
next
  assume "10 \<le> P" and "startup_ok argv cfg"
  then show "updaters_constructed (calls (Server_run appName version argv cfg)) = [seconds P]"
    using assms by (simp add: Server_run_started start_updater_above)
qed

theorem C2_effective_period_witness:
  "fst (start_updater 0) = None
   \<and> updaters_constructed (calls (Server_run ''icepatchserver'' ''1.0.0'' [''icepatchserver'']
        \<lparr>Endpoints = ''tcp -p 10000'', Directory = [], UpdatePeriod = Some 0,
         chdir_error = None\<rparr>)) = []
   \<and> updaters_constructed (calls (Server_run ''icepatchserver'' ''1.0.0'' [''icepatchserver'']
        \<lparr>Endpoints = ''tcp -p 10000'', Directory = [], UpdatePeriod = Some 3,
         chdir_error = None\<rparr>)) = [10000000]
   \<and> updaters_constructed (calls (Server_run ''icepatchserver'' ''1.0.0'' [''icepatchserver'']
        \<lparr>Endpoints = ''tcp -p 10000'', Directory = [], UpdatePeriod = None,
         chdir_error = None\<rparr>)) = [60000000]"
  using C2_effective_period [of "\<lparr>Endpoints = ''tcp -p 10000'', Directory = [],
            UpdatePeriod = Some 0, chdir_error = None\<rparr>" 0
          "''icepatchserver''" "''1.0.0''" "[''icepatchserver'']"]
        C2_effective_period [of "\<lparr>Endpoints = ''tcp -p 10000'', Directory = [],
            UpdatePeriod = Some 3, chdir_error = None\<rparr>" 3
          "''icepatchserver''" "''1.0.0''" "[''icepatchserver'']"]
        C2_effective_period [of "\<lparr>Endpoints = ''tcp -p 10000'', Directory = [],
            UpdatePeriod = None, chdir_error = None\<rparr>" 60
          "''icepatchserver''" "''1.0.0''" "[''icepatchserver'']"]
  by (simp add: getPropertyAsIntWithDefault_def startup_ok_def seconds_def)

text \<open>
  C10. A strictly negative period \<open>P\<close> is not zero, so the Updater is constructed
  and started, and it is below ten seconds, so its period is raised to exactly
  10 seconds: the server does with \<open>P\<close> exactly what it does with any positive
  period \<open>Q\<close> below the floor. A run that gets as far as the adapter constructs
  and starts the Updater with period 10 seconds, between adding the servant
  locator and activating the adapter, and destroys and joins it at the end.
\<close>

theorem C10_negative_period:
  assumes "P < 0" and "0 < Q" and "Q < 10"
  shows "start_updater P =
           (Some (new_Updater (seconds 10)), [NewUpdater (seconds 10), StartUpdater])
       \<and> updatePeriod (new_Updater (seconds 10)) = seconds 10
       \<and> start_updater P = start_updater Q
       \<and> Server_run appName version argv (cfg\<lparr>UpdatePeriod := Some P\<rparr>)
           = Server_run appName version argv (cfg\<lparr>UpdatePeriod := Some Q\<rparr>)
       \<and> (startup_ok argv cfg \<longrightarrow>
            calls (Server_run appName version argv (cfg\<lparr>UpdatePeriod := Some P\<rparr>))
              = [CreateObjectAdapter, AddServantLocator, NewUpdater (seconds 10), StartUpdater,
                 ShutdownOnInterrupt, Activate, WaitForShutdown, IgnoreInterrupt,
                 DestroyUpdater, JoinUpdater]
            \<and> updaters_constructed
                 (calls (Server_run appName version argv (cfg\<lparr>UpdatePeriod := Some P\<rparr>)))
              = [seconds 10])"
proof -
  have p: "start_updater P =
             (Some (new_Updater (seconds 10)), [NewUpdater (seconds 10), StartUpdater])"
    using assms by (simp add: start_updater_floor)
  have q: "start_updater Q = start_updater P"
    using assms by (simp add: start_updater_floor)
  have r: "Server_run appName version argv (cfg\<lparr>UpdatePeriod := Some P\<rparr>)
           = Server_run appName version argv (cfg\<lparr>UpdatePeriod := Some Q\<rparr>)"
    by (simp add: Server_run_def getPropertyAsIntWithDefault_def q split: option.splits)
  have c: "calls (Server_run appName version argv (cfg\<lparr>UpdatePeriod := Some P\<rparr>))
              = [CreateObjectAdapter, AddServantLocator, NewUpdater (seconds 10), StartUpdater,
                 ShutdownOnInterrupt, Activate, WaitForShutdown, IgnoreInterrupt,
                 DestroyUpdater, JoinUpdater]" if "startup_ok argv cfg"
  proof -
    from that have "startup_ok argv (cfg\<lparr>UpdatePeriod := Some P\<rparr>)"
      by (simp add: startup_ok_def)
    from Server_run_started [OF this, of appName version] show ?thesis
      by (simp add: getPropertyAsIntWithDefault_def p)
  qed
  have u: "updaters_constructed
                 (calls (Server_run appName version argv (cfg\<lparr>UpdatePeriod := Some P\<rparr>)))
              = [seconds 10]" if "startup_ok argv cfg"
    unfolding c [OF that] by simp
  show ?thesis
    using p q r c u by (simp add: new_Updater_def)
qed

theorem C10_negative_period_witness:
  "(- 5 :: int) < 0
   \<and> start_updater (- 5) = start_updater 5
   \<and> start_updater (- 5) =
       (Some (new_Updater (seconds 10)), [NewUpdater (seconds 10), StartUpdater])
   \<and> Server_run ''icepatchserver'' ''1.0.0'' [''icepatchserver'']
        \<lparr>Endpoints = ''tcp -p 10000'', Directory = [], UpdatePeriod = Some (- 5),
         chdir_error = None\<rparr>
     = Server_run ''icepatchserver'' ''1.0.0'' [''icepatchserver'']
        \<lparr>Endpoints = ''tcp -p 10000'', Directory = [], UpdatePeriod = Some 5,
         chdir_error = None\<rparr>
   \<and> calls (Server_run ''icepatchserver'' ''1.0.0'' [''icepatchserver'']
        \<lparr>Endpoints = ''tcp -p 10000'', Directory = [], UpdatePeriod = Some (- 5),
         chdir_error = None\<rparr>)
     = [CreateObjectAdapter, AddServantLocator, NewUpdater (seconds 10), StartUpdater,
        ShutdownOnInterrupt, Activate, WaitForShutdown, IgnoreInterrupt,
        DestroyUpdater, JoinUpdater]"
proof -
  let ?cfg = "\<lparr>Endpoints = ''tcp -p 10000'', Directory = [], UpdatePeriod = None,
          chdir_error = None\<rparr>"
  have h: "(- 5 :: int) < 0" "(0 :: int) < 5" "(5 :: int) < 10" by simp_all
  have ok: "startup_ok [''icepatchserver''] ?cfg" by (simp add: startup_ok_def)
  note t = C10_negative_period [OF h, of "''icepatchserver''" "''1.0.0''"
        "[''icepatchserver'']" ?cfg]
  have a: "start_updater (- 5) =
             (Some (new_Updater (seconds 10)), [NewUpdater (seconds 10), StartUpdater])"
    using t by blast
  have b: "start_updater (- 5) = start_updater 5"
    using t by blast
  have c: "Server_run ''icepatchserver'' ''1.0.0'' [''icepatchserver'']
        \<lparr>Endpoints = ''tcp -p 10000'', Directory = [], UpdatePeriod = Some (- 5),
         chdir_error = None\<rparr>
     = Server_run ''icepatchserver'' ''1.0.0'' [''icepatchserver'']
        \<lparr>Endpoints = ''tcp -p 10000'', Directory = [], UpdatePeriod = Some 5,
         chdir_error = None\<rparr>"
    using conjunct1 [OF conjunct2 [OF conjunct2 [OF conjunct2 [OF t]]]] by simp
  have d: "calls (Server_run ''icepatchserver'' ''1.0.0'' [''icepatchserver'']
        \<lparr>Endpoints = ''tcp -p 10000'', Directory = [], UpdatePeriod = Some (- 5),
         chdir_error = None\<rparr>)
     = [CreateObjectAdapter, AddServantLocator, NewUpdater (seconds 10), StartUpdater,
        ShutdownOnInterrupt, Activate, WaitForShutdown, IgnoreInterrupt,
        DestroyUpdater, JoinUpdater]"
    using conjunct2 [OF conjunct2 [OF conjunct2 [OF conjunct2 [OF t]]]] ok by simp
  show ?thesis
    using h(1) a b c d by blast
qed

section \<open>Properties of the Updater\<close>


lemma log_entries_append [simp]: "log_entries (xs @ ys) = log_entries xs @ log_entries ys"
  by (induction xs rule: log_entries.induct) auto

lemma getBZ2Size_calls_append [simp]:
  "getBZ2Size_calls (xs @ ys) = getBZ2Size_calls xs @ getBZ2Size_calls ys"
  by (induction xs rule: getBZ2Size_calls.induct) auto

lemma cleanup_destroyed: "cleanup True fileDescSeq = (None, [])"
  by simp

lemma cleanup_no_log:
  "log_entries (snd (cleanup d xs)) = []"
  "log_entries (snd (cleanup_loop d xs)) = []"
  "log_entries (snd (cleanup_entry d p)) = []"
  by (induction d xs and d xs and d p rule: cleanup_cleanup_loop_cleanup_entry.induct)
     (auto split: prod.splits option.splits)

lemma cleanup_loop_abandons:
  "fst (cleanup_loop d xs) = Some a \<Longrightarrow> cleanup_loop d (xs @ ys) = cleanup_loop d xs"
  by (induction xs) (auto split: prod.splits option.splits)

lemma try_block_no_log: "log_entries (snd (try_block d t)) = []"
  by (cases "(d, t)" rule: try_block.cases) (auto simp: cleanup_no_log simp del: cleanup.simps)

lemma try_block_abandons:
  "fst (try_block d (Inr (DirectoryDesc (Inr xs)))) = Some (Throw e) \<Longrightarrow>
   try_block d (Inr (DirectoryDesc (Inr (xs @ ys)))) = try_block d (Inr (DirectoryDesc (Inr xs)))"
  by (simp add: cleanup_loop_abandons split: if_splits)

lemma exec_Check_Pass:
  "worker s = LoopTop \<Longrightarrow> \<not> destroy_flag (updater s) \<Longrightarrow>
   exec s [Check, Pass env] = Some (loop_body (s\<lparr>worker := InPass\<rparr>) env)"
  by simp

lemma loop_body_throws:
  assumes "\<not> destroy_flag (updater s)"
    and "try_block (destroy_flag (updater s)) (topDesc env) = (Some (Throw e), es)"
  shows "loop_body s env =
           s\<lparr>worker := Waiting,
             trace := trace s @ es
                      @ catch_clauses (isShutdownFromInterrupt env) (Some (Throw e))
                      @ [TimedWait (updatePeriod (updater s))]\<rparr>"
  using assms by (simp add: loop_body_def)

lemma loop_body_same_pass:
  assumes "try_block (destroy_flag (updater s)) (topDesc env')
           = try_block (destroy_flag (updater s)) (topDesc env)"
    and "isShutdownFromInterrupt env' = isShutdownFromInterrupt env"
  shows "loop_body s env' = loop_body s env"
  using assms by (simp add: loop_body_def split: prod.splits)

lemma pass_throws:
  assumes "worker s = LoopTop" and "\<not> destroy_flag (updater s)"
    and "try_block (destroy_flag (updater s)) (topDesc env) = (Some (Throw e), es)"
  shows "exec s [Check, Pass env] =
           Some (s\<lparr>worker := Waiting,
                   trace := trace s @ es
                            @ catch_clauses (isShutdownFromInterrupt env) (Some (Throw e))
                            @ [TimedWait (updatePeriod (updater s))]\<rparr>)"
proof -
  have "loop_body (s\<lparr>worker := InPass\<rparr>) env =
          s\<lparr>worker := Waiting,
            trace := trace s @ es
                     @ catch_clauses (isShutdownFromInterrupt env) (Some (Throw e))
                     @ [TimedWait (updatePeriod (updater s))]\<rparr>"
    using loop_body_throws [of "s\<lparr>worker := InPass\<rparr>" env e es] assms(2,3) by simp
  then show ?thesis
    using exec_Check_Pass [OF assms(1,2)] by simp
qed

lemma pass_throws_rest:
  assumes "worker s = LoopTop" and "\<not> destroy_flag (updater s)"
    and "try_block (destroy_flag (updater s)) (topDesc env) = (Some (Throw e), es)"
    and "topDesc env = Inr (DirectoryDesc (Inr contents))"
  shows "exec s [Check, Pass (env\<lparr>topDesc := Inr (DirectoryDesc (Inr (contents @ others)))\<rparr>)]
         = exec s [Check, Pass env]"
proof -
  let ?d = "destroy_flag (updater s)"
  let ?env' = "env\<lparr>topDesc := Inr (DirectoryDesc (Inr (contents @ others)))\<rparr>"
  have "fst (try_block ?d (Inr (DirectoryDesc (Inr contents)))) = Some (Throw e)"
    using assms(3,4) by simp
  then have "try_block ?d (Inr (DirectoryDesc (Inr (contents @ others))))
        = try_block ?d (Inr (DirectoryDesc (Inr contents)))"
    by (rule try_block_abandons)
  then have "try_block ?d (topDesc ?env') = try_block ?d (topDesc env)"
    using assms(4) by (simp del: try_block.simps)
  then have "loop_body (s\<lparr>worker := InPass\<rparr>) ?env' = loop_body (s\<lparr>worker := InPass\<rparr>) env"
    by (intro loop_body_same_pass) simp_all
  then show ?thesis
    using exec_Check_Pass [OF assms(1,2)] by simp
qed

lemma next_pass_after_wait:
  assumes "worker s = Waiting" and "\<not> destroy_flag (updater s)"
  shows "exec s [Timeout, Resume, Check] = Some (s\<lparr>worker := InPass\<rparr>)"
  using assms by simp

lemma quiet_cleanup:
  "quiet p \<Longrightarrow> cleanup_entry False p = (None, map GetBZ2Size (regulars p))"
  "quiet_list ps \<Longrightarrow> cleanup_loop False ps = (None, map GetBZ2Size (regulars_list ps))"
  by (induction p and ps rule: quiet_quiet_list.induct) auto

lemma cleanup_loop_append:
  "cleanup_loop d xs = (None, es) \<Longrightarrow>
   cleanup_loop d (xs @ ys) = (case cleanup_loop d ys of (r, es') \<Rightarrow> (r, es @ es'))"
  by (induction xs arbitrary: es) (auto split: prod.splits option.splits)

lemma cleanup_loop_raising_head:
  "cleanup_entry d p = (Some a, es) \<Longrightarrow> cleanup_loop d (p # ps) = (Some a, es)"
  by simp

lemma cleanup_entry_raising:
  "raising node = Some e \<Longrightarrow>
   cleanup_entry False node = (Some (Throw e), map GetBZ2Size (own_call node))"
  by (cases node rule: raising.cases) auto

lemma cleanup_entry_plug:
  "quiet_before levels \<Longrightarrow> raising node = Some e \<Longrightarrow>
   cleanup_entry False (plug levels node)
     = (Some (Throw e), map GetBZ2Size (regulars_before levels @ own_call node))"
proof (induction levels)
  case Nil
  then show ?case by (simp add: cleanup_entry_raising)
next
  case (Cons l levels)
  obtain before after where l: "l = (before, after)" by (cases l)
  from Cons.prems l have qb: "quiet_list before" and ql: "quiet_before levels" by simp_all
  have inner: "cleanup_entry False (plug levels node)
     = (Some (Throw e), map GetBZ2Size (regulars_before levels @ own_call node))"
    using Cons.IH [OF ql Cons.prems(2)] .
  have tail: "cleanup_loop False (plug levels node # after)
     = (Some (Throw e), map GetBZ2Size (regulars_before levels @ own_call node))"
    using inner by (rule cleanup_loop_raising_head)
  have "cleanup_loop False (before @ plug levels node # after)
     = (Some (Throw e),
        map GetBZ2Size (regulars_list before)
        @ map GetBZ2Size (regulars_before levels @ own_call node))"
    using cleanup_loop_append [OF quiet_cleanup(2) [OF qb], of "plug levels node # after"] tail
    by simp
  then show ?case using l by simp
qed

lemma is_directory_plug:
  "is_directory (plug levels node) = (levels \<noteq> [] \<or> is_directory node)"
  by (cases levels) auto

lemma try_block_plug:
  assumes "is_directory (plug levels node)" and "quiet_before levels"
    and "raising node = Some e"
  shows "try_block False (Inr (plug levels node))
     = (Some (Throw e), map GetBZ2Size (regulars_before levels @ own_call node))"
proof -
  have "try_block False (Inr (plug levels node)) = cleanup_entry False (plug levels node)"
    using assms(1) by (cases "plug levels node" rule: cleanup_entry.cases [of "(False, _)"]) auto
  then show ?thesis using cleanup_entry_plug [OF assms(2,3)] by simp
qed


lemma cleanup_returns_quiet:
  "cleanup False ps = (None, es) \<Longrightarrow> quiet_list ps \<and> es = map GetBZ2Size (regulars_list ps)"
  "cleanup_loop False ps = (None, es) \<Longrightarrow> quiet_list ps \<and> es = map GetBZ2Size (regulars_list ps)"
  "cleanup_entry False p = (None, es) \<Longrightarrow> quiet p \<and> es = map GetBZ2Size (regulars p)"
  by (induction False ps and False ps and False p arbitrary: es and es and es
        rule: cleanup_cleanup_loop_cleanup_entry.induct)
     (auto split: prod.splits option.splits)

lemma cleanup_throws_site:
  "cleanup False ps = (Some (Throw e), es) \<Longrightarrow>
     \<exists>before levels node after.
        ps = before @ plug levels node # after \<and> quiet_list before \<and> quiet_before levels
        \<and> raising node = Some e
        \<and> es = map GetBZ2Size (regulars_list before @ regulars_before levels @ own_call node)"
  "cleanup_loop False ps = (Some (Throw e), es) \<Longrightarrow>
     \<exists>before levels node after.
        ps = before @ plug levels node # after \<and> quiet_list before \<and> quiet_before levels
        \<and> raising node = Some e
        \<and> es = map GetBZ2Size (regulars_list before @ regulars_before levels @ own_call node)"
  "cleanup_entry False p = (Some (Throw e), es) \<Longrightarrow>
     \<exists>levels node.
        p = plug levels node \<and> quiet_before levels \<and> raising node = Some e
        \<and> es = map GetBZ2Size (regulars_before levels @ own_call node)"
proof (induction False ps and False ps and False p arbitrary: es and es and es
        rule: cleanup_cleanup_loop_cleanup_entry.induct)
  case (1 fileDescSeq)
  then show ?case by simp
next
  case 2
  then show ?case by simp
next
  case (3 p ps)
  show ?case
  proof (cases "cleanup_entry False p")
    case (Pair r es1)
    show ?thesis
    proof (cases r)
      case None
      with Pair have q: "quiet p" and e1: "es1 = map GetBZ2Size (regulars p)"
        using cleanup_returns_quiet(3) by blast+
      obtain r2 es2 where l: "cleanup_loop False ps = (r2, es2)" by (cases "cleanup_loop False ps")
      with 3(3) Pair None have r2: "r2 = Some (Throw e)" and es: "es = es1 @ es2" by simp_all
      have "(None, es1) = cleanup_entry False p" using Pair None by simp
      from 3(2) [OF this refl l [unfolded r2]]
      obtain before levels node after where
        "ps = before @ plug levels node # after" "quiet_list before" "quiet_before levels"
        "raising node = Some e"
        "es2 = map GetBZ2Size (regulars_list before @ regulars_before levels @ own_call node)"
        by blast
      then have "p # ps = (p # before) @ plug levels node # after \<and> quiet_list (p # before)
        \<and> quiet_before levels \<and> raising node = Some e
        \<and> es = map GetBZ2Size (regulars_list (p # before) @ regulars_before levels @ own_call node)"
        using q e1 es by simp
      then show ?thesis by blast
    next
      case (Some a)
      with 3(3) Pair have a: "a = Throw e" and es: "es = es1" by simp_all
      from 3(1) [of es1] Pair Some a
      obtain levels node where
        "p = plug levels node" "quiet_before levels" "raising node = Some e"
        "es1 = map GetBZ2Size (regulars_before levels @ own_call node)"
        by blast
      then have "p # ps = [] @ plug levels node # ps \<and> quiet_list []
        \<and> quiet_before levels \<and> raising node = Some e
        \<and> es = map GetBZ2Size (regulars_list [] @ regulars_before levels @ own_call node)"
        using es by simp
      then show ?thesis by blast
    qed
  qed
next
  case (4 e')
  then have "DirectoryDesc (Inl e') = plug [] (DirectoryDesc (Inl e')) \<and> quiet_before []
     \<and> raising (DirectoryDesc (Inl e')) = Some e
     \<and> es = map GetBZ2Size (regulars_before [] @ own_call (DirectoryDesc (Inl e')))"
    by simp
  then show ?case by blast
next
  case (5 contents)
  then have "cleanup False contents = (Some (Throw e), es)" by simp
  from 5(1) [OF this]
  obtain before levels node after where
    "contents = before @ plug levels node # after" "quiet_list before" "quiet_before levels"
    "raising node = Some e"
    "es = map GetBZ2Size (regulars_list before @ regulars_before levels @ own_call node)"
    by blast
  then have "DirectoryDesc (Inr contents) = plug ((before, after) # levels) node
     \<and> quiet_before ((before, after) # levels) \<and> raising node = Some e
     \<and> es = map GetBZ2Size (regulars_before ((before, after) # levels) @ own_call node)"
    by simp
  then show ?case by blast
next
  case (6 regular)
  then show ?case by simp
next
  case (7 regular e')
  then have "RegularDesc regular (Some e') = plug [] (RegularDesc regular (Some e'))
     \<and> quiet_before []
     \<and> raising (RegularDesc regular (Some e')) = Some e
     \<and> es = map GetBZ2Size (regulars_before [] @ own_call (RegularDesc regular (Some e')))"
    by simp
  then show ?case by blast
next
  case 8
  then show ?case by simp
qed


lemma try_block_throws_site:
  assumes "try_block False t = (Some (Throw e), es)"
  shows "t = Inl (Throw e) \<and> es = []
       \<or> (\<exists>levels node. t = Inr (plug levels node) \<and> is_directory (plug levels node)
             \<and> quiet_before levels \<and> raising node = Some e
             \<and> es = map GetBZ2Size (regulars_before levels @ own_call node))"
proof (cases "(False, t)" rule: try_block.cases)
  case (1 d a)
  with assms show ?thesis by simp
next
  case (2 d e')
  with assms have "t = Inr (plug [] (DirectoryDesc (Inl e')))
      \<and> is_directory (plug [] (DirectoryDesc (Inl e'))) \<and> quiet_before []
      \<and> raising (DirectoryDesc (Inl e')) = Some e
      \<and> es = map GetBZ2Size (regulars_before [] @ own_call (DirectoryDesc (Inl e')))"
    by simp
  then show ?thesis by blast
next
  case (3 d contents)
  with assms have "cleanup_entry False (DirectoryDesc (Inr contents)) = (Some (Throw e), es)"
    by simp
  from cleanup_throws_site(3) [OF this] 3 show ?thesis
    by (metis Pair_inject is_directory.simps(1))
next
  case (4 d regular r)
  with assms show ?thesis by simp
next
  case (5 d)
  with assms show ?thesis by simp
qed

lemma getBZ2Size_calls_map [simp]: "getBZ2Size_calls (map GetBZ2Size fs) = fs"
  by (induction fs) simp_all

lemma log_entries_map [simp]: "log_entries (map GetBZ2Size fs) = []"
  by (induction fs) simp_all

lemma try_block_site:
  assumes "t = Inl (Throw e) \<and> fs = []
         \<or> t = Inr (plug levels node) \<and> is_directory (plug levels node)
           \<and> quiet_before levels \<and> raising node = Some e
           \<and> fs = regulars_before levels @ own_call node"
  shows "try_block False t = (Some (Throw e), map GetBZ2Size fs)"
  using assms try_block_plug [of levels node e] by auto

text \<open>
  C4. Take a pass that starts (the loop test finds \<^verbatim>\<open>_destroy\<close> false) and in
  which a \<open>FileAccessException\<close> is raised: by resolving the root, or by the call
  made on a node anywhere in the tree, at any depth, everything listed before
  that node being quiet. Whatever is listed after the node, at every level, the
  iteration makes exactly the \<^verbatim>\<open>getBZ2Size()\<close> calls on the files before the
  node (and on the node, if it is a file), writes exactly one entry to the
  logger, which ends with the exception's reason, and reaches \<^verbatim>\<open>timedWait\<close>,
  from where the next pass begins once the period has elapsed. By
  \<open>try_block_throws_site\<close> these are all the ways in which the \<^verbatim>\<open>try\<close> block
  can end with the exception.
\<close>

theorem C4_access_failure:
  assumes "worker s = LoopTop" and "\<not> destroy_flag (updater s)"
    and "topDesc env = Inl (Throw (FileAccessException printed reason)) \<and> fs = []
         \<or> topDesc env = Inr (plug levels node) \<and> is_directory (plug levels node)
           \<and> quiet_before levels
           \<and> raising node = Some (FileAccessException printed reason)
           \<and> fs = regulars_before levels @ own_call node"
  shows "\<exists>s'. exec s [Check, Pass env] = Some s'
        \<and> worker s' = Waiting
        \<and> trace s' = trace s @ map GetBZ2Size fs
            @ [LogError (''exception during update:\<newline>'' @ printed @ '':\<newline>''
                         @ reason),
               TimedWait (updatePeriod (updater s))]
        \<and> log_entries (trace s') = log_entries (trace s)
            @ [''exception during update:\<newline>'' @ printed @ '':\<newline>'' @ reason]
        \<and> getBZ2Size_calls (trace s') = getBZ2Size_calls (trace s) @ fs
        \<and> exec s' [Timeout, Resume, Check] = Some (s'\<lparr>worker := InPass\<rparr>)"
proof -
  let ?s' = "s\<lparr>worker := Waiting,
                trace := trace s @ map GetBZ2Size fs
                  @ catch_clauses (isShutdownFromInterrupt env)
                      (Some (Throw (FileAccessException printed reason)))
                  @ [TimedWait (updatePeriod (updater s))]\<rparr>"
  have "try_block False (topDesc env)
        = (Some (Throw (FileAccessException printed reason)), map GetBZ2Size fs)"
    using assms(3) by (rule try_block_site)
  then have "try_block (destroy_flag (updater s)) (topDesc env)
        = (Some (Throw (FileAccessException printed reason)), map GetBZ2Size fs)"
    using assms(2) by simp
  then have run: "exec s [Check, Pass env] = Some ?s'"
    using assms(1,2) by (intro pass_throws)
  have nxt: "exec ?s' [Timeout, Resume, Check] = Some (?s'\<lparr>worker := InPass\<rparr>)"
    using assms(2) by (intro next_pass_after_wait) simp_all
  have "worker ?s' = Waiting" by simp
  moreover have "trace ?s' = trace s @ map GetBZ2Size fs
            @ [LogError (''exception during update:\<newline>'' @ printed @ '':\<newline>''
                         @ reason),
               TimedWait (updatePeriod (updater s))]" by simp
  moreover have "log_entries (trace ?s') = log_entries (trace s)
            @ [''exception during update:\<newline>'' @ printed @ '':\<newline>'' @ reason]"
    by simp
  moreover have "getBZ2Size_calls (trace ?s') = getBZ2Size_calls (trace s) @ fs"
    by simp
  ultimately show ?thesis
    using run nxt by blast
qed

theorem C4_access_failure_witness:
  "map_option trace
     (exec \<lparr>updater = new_Updater (seconds 60), worker = LoopTop, trace = []\<rparr>
        [Check,
         Pass \<lparr>topDesc = Inr (DirectoryDesc (Inr
                  [RegularDesc ''a'' None,
                   DirectoryDesc (Inr
                     [RegularDesc ''d/x'' None,
                      RegularDesc ''d/y'' (Some (FileAccessException
                         ''IcePatch::FileAccessException'' ''permission denied'')),
                      RegularDesc ''d/z'' None]),
                   RegularDesc ''c'' None])),
               isShutdownFromInterrupt = False\<rparr>])
   = Some [GetBZ2Size ''a'', GetBZ2Size ''d/x'', GetBZ2Size ''d/y'',
           LogError (''exception during update:\<newline>IcePatch::FileAccessException:\<newline>''
                     @ ''permission denied''),
           TimedWait (seconds 60)]"
proof -
  let ?s = "\<lparr>updater = new_Updater (seconds 60), worker = LoopTop, trace = []\<rparr>"
  let ?node = "RegularDesc ''d/y'' (Some (FileAccessException
                         ''IcePatch::FileAccessException'' ''permission denied''))"
  let ?levels = "[([RegularDesc ''a'' None], [RegularDesc ''c'' None]),
                  ([RegularDesc ''d/x'' None], [RegularDesc ''d/z'' None])]"
  let ?env = "\<lparr>topDesc = Inr (DirectoryDesc (Inr
                  [RegularDesc ''a'' None,
                   DirectoryDesc (Inr
                     [RegularDesc ''d/x'' None,
                      RegularDesc ''d/y'' (Some (FileAccessException
                         ''IcePatch::FileAccessException'' ''permission denied'')),
                      RegularDesc ''d/z'' None]),
                   RegularDesc ''c'' None])),
               isShutdownFromInterrupt = False\<rparr>"
  have h1: "worker ?s = LoopTop" by simp
  have h2: "\<not> destroy_flag (updater ?s)" by (simp add: new_Updater_def)
  have h3: "topDesc ?env = Inr (plug ?levels ?node) \<and> is_directory (plug ?levels ?node)
           \<and> quiet_before ?levels
           \<and> raising ?node = Some (FileAccessException
                ''IcePatch::FileAccessException'' ''permission denied'')
           \<and> [''a'', ''d/x'', ''d/y''] = regulars_before ?levels @ own_call ?node"
    by simp
  from C4_access_failure [OF h1 h2 disjI2 [OF h3]] obtain s' where
    run: "exec ?s [Check, Pass ?env] = Some s'" and
    tr: "trace s' = trace ?s @ map GetBZ2Size [''a'', ''d/x'', ''d/y'']
            @ [LogError (''exception during update:\<newline>'' @ ''IcePatch::FileAccessException''
                         @ '':\<newline>'' @ ''permission denied''),
               TimedWait (updatePeriod (updater ?s))]"
    by blast
  have "map_option trace (exec ?s [Check, Pass ?env]) = Some (trace s')"
    by (simp only: run option.map)
  also have "trace s' = [GetBZ2Size ''a'', GetBZ2Size ''d/x'', GetBZ2Size ''d/y'',
           LogError (''exception during update:\<newline>IcePatch::FileAccessException:\<newline>''
                     @ ''permission denied''),
           TimedWait (seconds 60)]"
    unfolding tr by (simp add: new_Updater_def)
  finally show ?thesis .
qed


text \<open>
  C5. Take a pass that starts and whose \<^verbatim>\<open>try\<close> block ends with a
  \<open>BusyException\<close>. The iteration writes nothing to the logger, nothing of the
  pass follows the busy node, no call is repeated, and the worker reaches
  \<^verbatim>\<open>timedWait\<close> (it has neither returned nor aborted), from where the next
  pass begins once the period has elapsed.
\<close>

theorem C5_transient_busy:
  assumes "worker s = LoopTop" and "\<not> destroy_flag (updater s)"
    and "try_block (destroy_flag (updater s)) (topDesc env) = (Some (Throw BusyException), es)"
  shows "\<exists>s'. exec s [Check, Pass env] = Some s'
        \<and> worker s' = Waiting
        \<and> trace s' = trace s @ es @ [TimedWait (updatePeriod (updater s))]
        \<and> log_entries (trace s') = log_entries (trace s)
        \<and> (\<forall>contents others. topDesc env = Inr (DirectoryDesc (Inr contents)) \<longrightarrow>
              exec s [Check, Pass (env\<lparr>topDesc := Inr (DirectoryDesc (Inr (contents @ others)))\<rparr>)]
              = Some s')
        \<and> exec s' [Timeout, Resume, Check] = Some (s'\<lparr>worker := InPass\<rparr>)"
proof -
  let ?s' = "s\<lparr>worker := Waiting,
                trace := trace s @ es
                  @ catch_clauses (isShutdownFromInterrupt env) (Some (Throw BusyException))
                  @ [TimedWait (updatePeriod (updater s))]\<rparr>"
  have run: "exec s [Check, Pass env] = Some ?s'"
    using assms by (rule pass_throws)
  have nolog: "log_entries es = []"
    using try_block_no_log [of "destroy_flag (updater s)" "topDesc env"] assms(3) by simp
  have rest: "\<forall>contents others. topDesc env = Inr (DirectoryDesc (Inr contents)) \<longrightarrow>
              exec s [Check, Pass (env\<lparr>topDesc := Inr (DirectoryDesc (Inr (contents @ others)))\<rparr>)]
              = Some ?s'"
    using pass_throws_rest [OF assms] run by simp
  have nxt: "exec ?s' [Timeout, Resume, Check] = Some (?s'\<lparr>worker := InPass\<rparr>)"
    using assms(2) by (intro next_pass_after_wait) simp_all
  have "worker ?s' = Waiting" by simp
  moreover have "trace ?s' = trace s @ es @ [TimedWait (updatePeriod (updater s))]" by simp
  moreover have "log_entries (trace ?s') = log_entries (trace s)"
    using nolog by simp
  ultimately show ?thesis
    using run rest nxt by blast
qed

theorem C5_transient_busy_witness:
  "map_option trace
     (exec \<lparr>updater = new_Updater (seconds 60), worker = LoopTop, trace = []\<rparr>
        [Check,
         Pass \<lparr>topDesc = Inr (DirectoryDesc (Inr
                  [RegularDesc ''a'' None,
                   DirectoryDesc (Inr [RegularDesc ''d/b'' (Some BusyException)]),
                   RegularDesc ''c'' None])),
               isShutdownFromInterrupt = False\<rparr>])
   = Some [GetBZ2Size ''a'', GetBZ2Size ''d/b'', TimedWait (seconds 60)]"
proof -
  let ?s = "\<lparr>updater = new_Updater (seconds 60), worker = LoopTop, trace = []\<rparr>"
  let ?env = "\<lparr>topDesc = Inr (DirectoryDesc (Inr
                  [RegularDesc ''a'' None,
                   DirectoryDesc (Inr [RegularDesc ''d/b'' (Some BusyException)]),
                   RegularDesc ''c'' None])),
               isShutdownFromInterrupt = False\<rparr>"
  have h1: "worker ?s = LoopTop" by simp
  have h2: "\<not> destroy_flag (updater ?s)" by (simp add: new_Updater_def)
  have h3: "try_block (destroy_flag (updater ?s)) (topDesc ?env)
            = (Some (Throw BusyException), [GetBZ2Size ''a'', GetBZ2Size ''d/b''])"
    by (simp add: new_Updater_def)
  from C5_transient_busy [OF h1 h2 h3] obtain s' where
    run: "exec ?s [Check, Pass ?env] = Some s'" and
    tr: "trace s' = trace ?s @ [GetBZ2Size ''a'', GetBZ2Size ''d/b'']
            @ [TimedWait (updatePeriod (updater ?s))]"
    by blast
  have "map_option trace (exec ?s [Check, Pass ?env]) = Some (trace s')"
    by (simp only: run option.map)
  also have "trace s' = [GetBZ2Size ''a'', GetBZ2Size ''d/b'', TimedWait (seconds 60)]"
    unfolding tr by (simp add: new_Updater_def)
  finally show ?thesis .
qed


text \<open>
  C3. Take a pass that starts and in which an exception that is neither a
  \<open>FileAccessException\<close> nor a \<open>BusyException\<close> is raised: by resolving the root,
  or by the call made on a node anywhere in the tree, at any depth, everything
  listed before that node being quiet. Whatever is listed after the node, at
  every level, the iteration makes exactly the \<^verbatim>\<open>getBZ2Size()\<close> calls on the
  files before the node, goes on to \<^verbatim>\<open>timedWait\<close> and from there to the next
  pass, and writes an entry to the logger if and only if
  \<^verbatim>\<open>Application::isShutdownFromInterrupt()\<close> is false: during a shutdown
  nothing is written.
\<close>

theorem C3_other_failure:
  assumes "worker s = LoopTop" and "\<not> destroy_flag (updater s)"
    and "topDesc env = Inl (Throw (OtherException printed)) \<and> fs = []
         \<or> topDesc env = Inr (plug levels node) \<and> is_directory (plug levels node)
           \<and> quiet_before levels
           \<and> raising node = Some (OtherException printed)
           \<and> fs = regulars_before levels @ own_call node"
  shows "\<exists>s'. exec s [Check, Pass env] = Some s'
        \<and> worker s' = Waiting
        \<and> trace s' = trace s @ map GetBZ2Size fs
            @ (if isShutdownFromInterrupt env then []
               else [LogError (''exception during update:\<newline>'' @ printed)])
            @ [TimedWait (updatePeriod (updater s))]
        \<and> log_entries (trace s') = log_entries (trace s)
            @ (if isShutdownFromInterrupt env then []
               else [''exception during update:\<newline>'' @ printed])
        \<and> (log_entries (trace s') \<noteq> log_entries (trace s)) = (\<not> isShutdownFromInterrupt env)
        \<and> getBZ2Size_calls (trace s') = getBZ2Size_calls (trace s) @ fs
        \<and> exec s' [Timeout, Resume, Check] = Some (s'\<lparr>worker := InPass\<rparr>)"
proof -
  let ?s' = "s\<lparr>worker := Waiting,
                trace := trace s @ map GetBZ2Size fs
                  @ catch_clauses (isShutdownFromInterrupt env)
                      (Some (Throw (OtherException printed)))
                  @ [TimedWait (updatePeriod (updater s))]\<rparr>"
  have "try_block False (topDesc env)
        = (Some (Throw (OtherException printed)), map GetBZ2Size fs)"
    using assms(3) by (rule try_block_site)
  then have "try_block (destroy_flag (updater s)) (topDesc env)
        = (Some (Throw (OtherException printed)), map GetBZ2Size fs)"
    using assms(2) by simp
  then have run: "exec s [Check, Pass env] = Some ?s'"
    using assms(1,2) by (intro pass_throws)
  have nxt: "exec ?s' [Timeout, Resume, Check] = Some (?s'\<lparr>worker := InPass\<rparr>)"
    using assms(2) by (intro next_pass_after_wait) simp_all
  have "worker ?s' = Waiting" by simp
  moreover have "trace ?s' = trace s @ map GetBZ2Size fs
            @ (if isShutdownFromInterrupt env then []
               else [LogError (''exception during update:\<newline>'' @ printed)])
            @ [TimedWait (updatePeriod (updater s))]" by simp
  moreover have "log_entries (trace ?s') = log_entries (trace s)
            @ (if isShutdownFromInterrupt env then []
               else [''exception during update:\<newline>'' @ printed])"
    by simp
  moreover have "(log_entries (trace ?s') \<noteq> log_entries (trace s))
                 = (\<not> isShutdownFromInterrupt env)"
    by simp
  moreover have "getBZ2Size_calls (trace ?s') = getBZ2Size_calls (trace s) @ fs"
    by simp
  ultimately show ?thesis
    using run nxt by blast
qed

theorem C3_other_failure_witness:
  "map_option trace
     (exec \<lparr>updater = new_Updater (seconds 60), worker = LoopTop, trace = []\<rparr>
        [Check,
         Pass \<lparr>topDesc = Inr (DirectoryDesc (Inr
                  [RegularDesc ''a'' None,
                   DirectoryDesc (Inr
                     [RegularDesc ''d/x'' None,
                      DirectoryDesc (Inl (OtherException
                         ''Ice::ObjectAdapterDeactivatedException'')),
                      RegularDesc ''d/z'' None]),
                   RegularDesc ''c'' None])),
               isShutdownFromInterrupt = True\<rparr>])
   = Some [GetBZ2Size ''a'', GetBZ2Size ''d/x'', TimedWait (seconds 60)]
   \<and> map_option trace
     (exec \<lparr>updater = new_Updater (seconds 60), worker = LoopTop, trace = []\<rparr>
        [Check,
         Pass \<lparr>topDesc = Inr (DirectoryDesc (Inr
                  [RegularDesc ''a'' None,
                   DirectoryDesc (Inr
                     [RegularDesc ''d/x'' None,
                      DirectoryDesc (Inl (OtherException
                         ''Ice::ObjectAdapterDeactivatedException'')),
                      RegularDesc ''d/z'' None]),
                   RegularDesc ''c'' None])),
               isShutdownFromInterrupt = False\<rparr>])
   = Some [GetBZ2Size ''a'', GetBZ2Size ''d/x'',
           LogError (''exception during update:\<newline>''
                     @ ''Ice::ObjectAdapterDeactivatedException''),
           TimedWait (seconds 60)]"
proof -
  let ?s = "\<lparr>updater = new_Updater (seconds 60), worker = LoopTop, trace = []\<rparr>"
  let ?node = "DirectoryDesc (Inl (OtherException ''Ice::ObjectAdapterDeactivatedException''))"
  let ?levels = "[([RegularDesc ''a'' None], [RegularDesc ''c'' None]),
                  ([RegularDesc ''d/x'' None], [RegularDesc ''d/z'' None])]"
  let ?top = "Inr (DirectoryDesc (Inr
                  [RegularDesc ''a'' None,
                   DirectoryDesc (Inr
                     [RegularDesc ''d/x'' None,
                      DirectoryDesc (Inl (OtherException
                         ''Ice::ObjectAdapterDeactivatedException'')),
                      RegularDesc ''d/z'' None]),
                   RegularDesc ''c'' None]))"
  let ?env = "\<lambda>shutdown. \<lparr>topDesc = ?top, isShutdownFromInterrupt = shutdown\<rparr>"
  have h1: "worker ?s = LoopTop" by simp
  have h2: "\<not> destroy_flag (updater ?s)" by (simp add: new_Updater_def)
  have h3: "topDesc (?env shutdown) = Inr (plug ?levels ?node)
           \<and> is_directory (plug ?levels ?node)
           \<and> quiet_before ?levels
           \<and> raising ?node = Some (OtherException ''Ice::ObjectAdapterDeactivatedException'')
           \<and> [''a'', ''d/x''] = regulars_before ?levels @ own_call ?node" for shutdown
    by simp
  from C3_other_failure [OF h1 h2 disjI2 [OF h3 [of True]]] obtain s1 where
    run1: "exec ?s [Check, Pass (?env True)] = Some s1" and
    tr1: "trace s1 = trace ?s @ map GetBZ2Size [''a'', ''d/x'']
            @ (if isShutdownFromInterrupt (?env True) then []
               else [LogError (''exception during update:\<newline>''
                               @ ''Ice::ObjectAdapterDeactivatedException'')])
            @ [TimedWait (updatePeriod (updater ?s))]"
    by blast
  from C3_other_failure [OF h1 h2 disjI2 [OF h3 [of False]]] obtain s2 where
    run2: "exec ?s [Check, Pass (?env False)] = Some s2" and
    tr2: "trace s2 = trace ?s @ map GetBZ2Size [''a'', ''d/x'']
            @ (if isShutdownFromInterrupt (?env False) then []
               else [LogError (''exception during update:\<newline>''
                               @ ''Ice::ObjectAdapterDeactivatedException'')])
            @ [TimedWait (updatePeriod (updater ?s))]"
    by blast
  have a: "map_option trace (exec ?s [Check, Pass (?env True)])
           = Some [GetBZ2Size ''a'', GetBZ2Size ''d/x'', TimedWait (seconds 60)]"
    unfolding run1 option.map tr1 by (simp add: new_Updater_def)
  have b: "map_option trace (exec ?s [Check, Pass (?env False)])
           = Some [GetBZ2Size ''a'', GetBZ2Size ''d/x'',
                   LogError (''exception during update:\<newline>''
                             @ ''Ice::ObjectAdapterDeactivatedException''),
                   TimedWait (seconds 60)]"
    unfolding run2 option.map tr2 by (simp add: new_Updater_def)
  from a b show ?thesis by simp
qed

lemma loop_body_returns:
  assumes "\<not> destroy_flag (updater s)"
    and "try_block (destroy_flag (updater s)) (topDesc env) = (None, es)"
  shows "loop_body s env =
           s\<lparr>worker := Waiting, trace := trace s @ es @ [TimedWait (updatePeriod (updater s))]\<rparr>"
  using assms by (simp add: loop_body_def)

lemma getBZ2Size_calls_catch_clauses [simp]: "getBZ2Size_calls (catch_clauses sd r) = []"
  by (cases "(sd, r)" rule: catch_clauses.cases) simp_all

text \<open>
  C7. Let the root resolve to a directory whose listing is exactly one regular
  file. A pass that starts invokes \<^verbatim>\<open>getBZ2Size()\<close> exactly once, on that
  file; and when that call returns, the pass writes nothing to the logger and
  the iteration consists of the call followed by \<^verbatim>\<open>timedWait\<close>.
\<close>

theorem C7_single_regular_file:
  assumes "worker s = LoopTop" and "\<not> destroy_flag (updater s)"
    and "topDesc env = Inr (DirectoryDesc (Inr [RegularDesc regular r]))"
  shows "\<exists>s'. exec s [Check, Pass env] = Some s'
        \<and> getBZ2Size_calls (trace s') = getBZ2Size_calls (trace s) @ [regular]
        \<and> (r = None \<longrightarrow>
             log_entries (trace s') = log_entries (trace s)
             \<and> worker s' = Waiting
             \<and> trace s' = trace s @ [GetBZ2Size regular, TimedWait (updatePeriod (updater s))])"
proof (cases r)
  case None
  have "try_block (destroy_flag (updater (s\<lparr>worker := InPass\<rparr>))) (topDesc env)
        = (None, [GetBZ2Size regular])"
    using assms(2,3) None by simp
  then have "loop_body (s\<lparr>worker := InPass\<rparr>) env =
           s\<lparr>worker := Waiting,
             trace := trace s @ [GetBZ2Size regular] @ [TimedWait (updatePeriod (updater s))]\<rparr>"
    using loop_body_returns [of "s\<lparr>worker := InPass\<rparr>" env "[GetBZ2Size regular]"] assms(2)
    by simp
  then have "exec s [Check, Pass env] =
           Some (s\<lparr>worker := Waiting,
             trace := trace s @ [GetBZ2Size regular] @ [TimedWait (updatePeriod (updater s))]\<rparr>)"
    using exec_Check_Pass [OF assms(1,2)] by simp
  then show ?thesis by simp
next
  case (Some e)
  have "try_block (destroy_flag (updater s)) (topDesc env)
        = (Some (Throw e), [GetBZ2Size regular])"
    using assms(2,3) Some by simp
  from pass_throws [OF assms(1,2) this] show ?thesis
    using Some by simp
qed

theorem C7_single_regular_file_witness:
  "map_option trace
     (exec \<lparr>updater = new_Updater (seconds 60), worker = LoopTop, trace = []\<rparr>
        [Check,
         Pass \<lparr>topDesc = Inr (DirectoryDesc (Inr [RegularDesc ''README'' None])),
               isShutdownFromInterrupt = False\<rparr>])
   = Some [GetBZ2Size ''README'', TimedWait (seconds 60)]"
proof -
  let ?s = "\<lparr>updater = new_Updater (seconds 60), worker = LoopTop, trace = []\<rparr>"
  let ?env = "\<lparr>topDesc = Inr (DirectoryDesc (Inr [RegularDesc ''README'' None])),
               isShutdownFromInterrupt = False\<rparr>"
  have h1: "worker ?s = LoopTop" by simp
  have h2: "\<not> destroy_flag (updater ?s)" by (simp add: new_Updater_def)
  have h3: "topDesc ?env = Inr (DirectoryDesc (Inr [RegularDesc ''README'' None]))" by simp
  from C7_single_regular_file [OF h1 h2 h3] obtain s' where
    run: "exec ?s [Check, Pass ?env] = Some s'" and
    tr: "trace s' = trace ?s @ [GetBZ2Size ''README'', TimedWait (updatePeriod (updater ?s))]"
    by blast
  have "map_option trace (exec ?s [Check, Pass ?env]) = Some (trace s')"
    by (simp only: run option.map)
  also have "trace s' = [GetBZ2Size ''README'', TimedWait (seconds 60)]"
    unfolding tr by (simp add: new_Updater_def)
  finally show ?thesis .
qed


subsection \<open>The stop flag\<close>

lemma step_destroy_flag:
  "step s a = Some s' \<Longrightarrow>
   destroy_flag (updater s') = (destroy_flag (updater s) \<or> a = Destroy)"
  by (cases a) (auto simp: destroy_def loop_body_def split: if_splits prod.splits)

lemma step_updatePeriod:
  "step s a = Some s' \<Longrightarrow> updatePeriod (updater s') = updatePeriod (updater s)"
  by (cases a) (auto simp: destroy_def loop_body_def split: if_splits prod.splits)

lemma exec_destroy_flag:
  "exec s as = Some s' \<Longrightarrow> destroy_flag (updater s) \<Longrightarrow> destroy_flag (updater s')"
proof (induction as arbitrary: s)
  case Nil
  then show ?case by simp
next
  case (Cons a as)
  then obtain s1 where 1: "step s a = Some s1" and 2: "exec s1 as = Some s'"
    by (auto split: option.splits)
  from 1 Cons.prems(2) have "destroy_flag (updater s1)"
    by (simp add: step_destroy_flag)
  with 2 show ?case by (rule Cons.IH)
qed

lemma step_flag_stopping:
  assumes "step s a = Some s'"
    and "destroy_flag (updater s) \<longrightarrow> stopping (worker s)"
  shows "destroy_flag (updater s') \<longrightarrow> stopping (worker s')"
  using assms
  by (cases a; cases "worker s")
     (auto simp: destroy_def loop_body_def split: if_splits prod.splits)

lemma exec_flag_stopping:
  "exec s as = Some s' \<Longrightarrow> (destroy_flag (updater s) \<longrightarrow> stopping (worker s)) \<Longrightarrow>
   destroy_flag (updater s') \<longrightarrow> stopping (worker s')"
proof (induction as arbitrary: s)
  case Nil
  then show ?case by simp
next
  case (Cons a as)
  then obtain s1 where 1: "step s a = Some s1" and 2: "exec s1 as = Some s'"
    by (auto split: option.splits)
  from 1 Cons.prems(2) have "destroy_flag (updater s1) \<longrightarrow> stopping (worker s1)"
    by (rule step_flag_stopping)
  with 2 show ?case by (rule Cons.IH)
qed

lemma reachable_flag_stopping:
  "exec (init period) as = Some s \<Longrightarrow> destroy_flag (updater s) \<Longrightarrow> stopping (worker s)"
  using exec_flag_stopping [of "init period" as s] by (simp add: init_def new_Updater_def)

lemma step_stopped:
  assumes "step s a = Some s'" and "destroy_flag (updater s)" and "stopping (worker s)"
  shows "destroy_flag (updater s') \<and> stopping (worker s') \<and> trace s' = trace s"
  using assms
  by (cases a; cases "worker s") (auto simp: destroy_def split: if_splits)

lemma exec_stopped:
  "exec s as = Some s' \<Longrightarrow> destroy_flag (updater s) \<Longrightarrow> stopping (worker s) \<Longrightarrow>
   destroy_flag (updater s') \<and> stopping (worker s') \<and> trace s' = trace s"
proof (induction as arbitrary: s)
  case Nil
  then show ?case by simp
next
  case (Cons a as)
  then obtain s1 where 1: "step s a = Some s1" and 2: "exec s1 as = Some s'"
    by (auto split: option.splits)
  from step_stopped [OF 1 Cons.prems(2,3)]
  have 3: "destroy_flag (updater s1)" "stopping (worker s1)" "trace s1 = trace s"
    by simp_all
  from Cons.IH [OF 2 3(1,2)] 3(3) show ?case by simp
qed

text \<open>
  C9. \<^verbatim>\<open>_destroy\<close> is false in a new Updater; a step changes it only if the step
  is \<^verbatim>\<open>destroy()\<close>, and then to true; so once it is true it is true after any
  further steps. And in every state the system can reach, once the flag is true
  no further pass is started: the worker is never again inside the loop body and
  nothing more is added to the trace (no call, no log entry, no wait).
\<close>

theorem C9_stop_flag_monotone:
  "\<not> destroy_flag (new_Updater period)
   \<and> (step s a = Some s' \<longrightarrow>
        destroy_flag (updater s') = (destroy_flag (updater s) \<or> a = Destroy))
   \<and> (exec s as = Some s'' \<and> destroy_flag (updater s) \<longrightarrow> destroy_flag (updater s''))
   \<and> (exec (init period) as1 = Some t \<and> destroy_flag (updater t) \<and> exec t as2 = Some t' \<longrightarrow>
        destroy_flag (updater t') \<and> worker t' \<noteq> InPass \<and> trace t' = trace t)"
proof (intro conjI impI)
  show "\<not> destroy_flag (new_Updater period)" by (simp add: new_Updater_def)
next
  assume "step s a = Some s'"
  then show "destroy_flag (updater s') = (destroy_flag (updater s) \<or> a = Destroy)"
    by (rule step_destroy_flag)
next
  assume "exec s as = Some s'' \<and> destroy_flag (updater s)"
  then show "destroy_flag (updater s'')" using exec_destroy_flag by blast
next
  assume a: "exec (init period) as1 = Some t \<and> destroy_flag (updater t) \<and> exec t as2 = Some t'"
  then have "stopping (worker t)" using reachable_flag_stopping by blast
  with a have r: "destroy_flag (updater t') \<and> stopping (worker t') \<and> trace t' = trace t"
    using exec_stopped by blast
  from r show "destroy_flag (updater t')" by simp
  from r show "trace t' = trace t" by simp
  from r show "worker t' \<noteq> InPass" by auto
qed


theorem C9_stop_flag_monotone_witness:
  "exec (init (seconds 60))
        [Start, Check,
         Pass \<lparr>topDesc = Inr (DirectoryDesc (Inr [RegularDesc ''README'' None])),
               isShutdownFromInterrupt = False\<rparr>,
         Destroy]
     = Some \<lparr>updater = \<lparr>updatePeriod = 60000000, destroy_flag = True\<rparr>, worker = Woken,
              trace = [GetBZ2Size ''README'', TimedWait 60000000]\<rparr>
   \<and> exec \<lparr>updater = \<lparr>updatePeriod = 60000000, destroy_flag = True\<rparr>, worker = Woken,
              trace = [GetBZ2Size ''README'', TimedWait 60000000]\<rparr>
        [Resume, Check]
     = Some \<lparr>updater = \<lparr>updatePeriod = 60000000, destroy_flag = True\<rparr>, worker = Returned,
              trace = [GetBZ2Size ''README'', TimedWait 60000000]\<rparr>
   \<and> worker \<lparr>updater = \<lparr>updatePeriod = 60000000, destroy_flag = True\<rparr>, worker = Returned,
              trace = [GetBZ2Size ''README'', TimedWait 60000000]\<rparr> \<noteq> InPass"
proof -
  let ?env = "\<lparr>topDesc = Inr (DirectoryDesc (Inr [RegularDesc ''README'' None])),
               isShutdownFromInterrupt = False\<rparr>"
  let ?t = "\<lparr>updater = \<lparr>updatePeriod = 60000000, destroy_flag = True\<rparr>, worker = Woken,
              trace = [GetBZ2Size ''README'', TimedWait 60000000]\<rparr>"
  let ?t' = "\<lparr>updater = \<lparr>updatePeriod = 60000000, destroy_flag = True\<rparr>, worker = Returned,
              trace = [GetBZ2Size ''README'', TimedWait 60000000]\<rparr>"
  have h1: "exec (init (seconds 60)) [Start, Check, Pass ?env, Destroy] = Some ?t"
    by (simp add: init_def new_Updater_def seconds_def loop_body_def destroy_def)
  have h2: "destroy_flag (updater ?t)" by simp
  have h3: "exec ?t [Resume, Check] = Some ?t'" by simp
  from C9_stop_flag_monotone [of "seconds 60" _ _ _ _ _ "[Start, Check, Pass ?env, Destroy]"
      ?t "[Resume, Check]" ?t'] h1 h2 h3
  have "worker ?t' \<noteq> InPass" by blast
  with h1 h3 show ?thesis by blast
qed

lemma destroy_effect:
  assumes "destroy s = Some s'"
  shows "\<not> holds_monitor (worker s) \<and> destroy_flag (updater s')
       \<and> updatePeriod (updater s') = updatePeriod (updater s)
       \<and> trace s' = trace s
       \<and> worker s' = (if worker s = Waiting then Woken else worker s)"
  using assms by (auto simp: destroy_def split: if_splits)

lemma destroy_twice: "destroy s = Some s' \<Longrightarrow> destroy s' = Some s'"
  by (cases "worker s") (auto simp: destroy_def split: if_splits)

lemma exec_destroy_repeated: "exec s (replicate (Suc n) Destroy) = exec s [Destroy]"
proof (induction n)
  case 0
  then show ?case by simp
next
  case (Suc n)
  show ?case
  proof (cases "destroy s")
    case None
    then show ?thesis by simp
  next
    case (Some s')
    then have "destroy s' = Some s'" by (rule destroy_twice)
    then have "exec s' [Destroy] = Some s'" by simp
    moreover have "exec s (replicate (Suc (Suc n)) Destroy) = exec s' (replicate (Suc n) Destroy)"
      using Some by simp
    moreover have "exec s' (replicate (Suc n) Destroy) = exec s' [Destroy]"
      using destroy_twice [OF Some] 
      by (induction n) simp_all
    ultimately show ?thesis using Some by simp
  qed
qed

lemma destroy_after_return:
  "worker s = Returned \<Longrightarrow>
   destroy s = Some (s\<lparr>updater := (updater s)\<lparr>destroy_flag := True\<rparr>\<rparr>)"
  by (simp add: destroy_def)

lemma destroy_stopped:
  assumes "destroy_flag (updater s)" and "stopping (worker s)"
  shows "destroy s = Some s
       \<or> (worker s = LoopTop \<and>
           (\<exists>s1. step s Check = Some s1 \<and> worker s1 = Returned \<and> destroy s1 = Some s1))"
  using assms by (cases "worker s") (auto simp: destroy_def)

lemma loop_body_releases: "\<not> holds_monitor (worker (loop_body s env))"
  by (simp add: loop_body_def split: prod.splits)

lemma monitor_released:
  assumes "holds_monitor (worker s)"
  shows "\<exists>as s1. as \<in> {[Check], [Check, Pass env], [Pass env]} \<and> exec s as = Some s1
                 \<and> \<not> holds_monitor (worker s1)"
proof -
  from assms consider "worker s = LoopTop" | "worker s = InPass"
    by (cases "worker s") simp_all
  then show ?thesis
  proof cases
    case 1
    show ?thesis
    proof (cases "destroy_flag (updater s)")
      case True
      with 1 have "exec s [Check] = Some (s\<lparr>worker := Returned\<rparr>)" by simp
      then show ?thesis
        by (intro exI [of _ "[Check]"] exI [of _ "s\<lparr>worker := Returned\<rparr>"]) simp
    next
      case False
      with 1 have "exec s [Check, Pass env] = Some (loop_body (s\<lparr>worker := InPass\<rparr>) env)"
        by simp
      then show ?thesis
        using loop_body_releases
        by (intro exI [of _ "[Check, Pass env]"]
                  exI [of _ "loop_body (s\<lparr>worker := InPass\<rparr>) env"]) simp
    qed
  next
    case 2
    then have "exec s [Pass env] = Some (loop_body s env)" by simp
    then show ?thesis
      using loop_body_releases
      by (intro exI [of _ "[Pass env]"] exI [of _ "loop_body s env"]) simp
  qed
qed

text \<open>
  C6. \<^verbatim>\<open>destroy()\<close> proceeds only when the worker does not hold the monitor;
  it then sets \<^verbatim>\<open>_destroy\<close>, wakes the worker if it waits, and changes nothing
  else. It is idempotent: a call right after a call changes nothing, and any
  number of calls in a row end as one call does. After the worker has returned
  the call proceeds at once. In every reachable state in which the flag is
  already set, a further call proceeds at once and changes nothing, or the
  worker stands at the loop test and its next step returns from \<^verbatim>\<open>run\<close>,
  after which the call proceeds and changes nothing. And whenever the worker
  holds the monitor, at most two of its own steps release it, whatever the pass
  meets. The call has no outcome other than proceeding: it raises nothing.
\<close>

theorem C6_destroy_idempotent:
  "(destroy s = Some s' \<longrightarrow>
      \<not> holds_monitor (worker s) \<and> destroy_flag (updater s')
      \<and> updatePeriod (updater s') = updatePeriod (updater s)
      \<and> trace s' = trace s
      \<and> worker s' = (if worker s = Waiting then Woken else worker s)
      \<and> destroy s' = Some s')
   \<and> exec s (replicate (Suc n) Destroy) = exec s [Destroy]
   \<and> (worker s = Returned \<longrightarrow>
        destroy s = Some (s\<lparr>updater := (updater s)\<lparr>destroy_flag := True\<rparr>\<rparr>))
   \<and> (exec (init period) as = Some t \<and> destroy_flag (updater t) \<longrightarrow>
        destroy t = Some t
        \<or> (worker t = LoopTop \<and>
            (\<exists>t1. step t Check = Some t1 \<and> worker t1 = Returned \<and> destroy t1 = Some t1)))
   \<and> (holds_monitor (worker s) \<longrightarrow>
        (\<exists>as s1. as \<in> {[Check], [Check, Pass env], [Pass env]} \<and> exec s as = Some s1
                 \<and> \<not> holds_monitor (worker s1)))"
proof (intro conjI impI)
  assume d: "destroy s = Some s'"
  from destroy_effect [OF d]
  show "\<not> holds_monitor (worker s)" and "destroy_flag (updater s')"
    and "updatePeriod (updater s') = updatePeriod (updater s)"
    and "trace s' = trace s"
    and "worker s' = (if worker s = Waiting then Woken else worker s)"
    by simp_all
  from d show "destroy s' = Some s'" by (rule destroy_twice)
next
  show "exec s (replicate (Suc n) Destroy) = exec s [Destroy]"
    by (rule exec_destroy_repeated)
next
  assume "worker s = Returned"
  then show "destroy s = Some (s\<lparr>updater := (updater s)\<lparr>destroy_flag := True\<rparr>\<rparr>)"
    by (rule destroy_after_return)
next
  assume a: "exec (init period) as = Some t \<and> destroy_flag (updater t)"
  then have "stopping (worker t)" using reachable_flag_stopping by blast
  with a show "destroy t = Some t
        \<or> (worker t = LoopTop \<and>
            (\<exists>t1. step t Check = Some t1 \<and> worker t1 = Returned \<and> destroy t1 = Some t1))"
    using destroy_stopped by blast
next
  assume "holds_monitor (worker s)"
  then show "\<exists>as s1. as \<in> {[Check], [Check, Pass env], [Pass env]} \<and> exec s as = Some s1
                 \<and> \<not> holds_monitor (worker s1)"
    by (rule monitor_released)
qed

theorem C6_destroy_idempotent_witness:
  "destroy \<lparr>updater = \<lparr>updatePeriod = 60000000, destroy_flag = False\<rparr>, worker = Waiting,
            trace = [GetBZ2Size ''README'', TimedWait 60000000]\<rparr>
     = Some \<lparr>updater = \<lparr>updatePeriod = 60000000, destroy_flag = True\<rparr>, worker = Woken,
              trace = [GetBZ2Size ''README'', TimedWait 60000000]\<rparr>
   \<and> destroy \<lparr>updater = \<lparr>updatePeriod = 60000000, destroy_flag = True\<rparr>, worker = Woken,
              trace = [GetBZ2Size ''README'', TimedWait 60000000]\<rparr>
     = Some \<lparr>updater = \<lparr>updatePeriod = 60000000, destroy_flag = True\<rparr>, worker = Woken,
              trace = [GetBZ2Size ''README'', TimedWait 60000000]\<rparr>"
proof -
  let ?s = "\<lparr>updater = \<lparr>updatePeriod = 60000000, destroy_flag = False\<rparr>, worker = Waiting,
            trace = [GetBZ2Size ''README'', TimedWait 60000000]\<rparr>"
  let ?s' = "\<lparr>updater = \<lparr>updatePeriod = 60000000, destroy_flag = True\<rparr>, worker = Woken,
              trace = [GetBZ2Size ''README'', TimedWait 60000000]\<rparr>"
  have h: "destroy ?s = Some ?s'" by (simp add: destroy_def)
  from C6_destroy_idempotent [of ?s ?s'] h have "destroy ?s' = Some ?s'" by blast
  with h show ?thesis by blast
qed

text \<open>
  The test at the head of \<^verbatim>\<open>cleanup\<close> is made before any entry of the listing
  is looked at. But \<^verbatim>\<open>destroy()\<close> cannot proceed while a pass is under way,
  and in every reachable state a pass runs with \<^verbatim>\<open>_destroy\<close> false.
\<close>

lemma destroy_blocked_in_pass: "worker s = InPass \<Longrightarrow> step s Destroy = None"
  by (simp add: destroy_def)

lemma reachable_pass_flag_clear:
  "exec (init period) as = Some s \<Longrightarrow> worker s = InPass \<Longrightarrow> \<not> destroy_flag (updater s)"
  using reachable_flag_stopping [of period as s] by auto

text \<open>
  C1. With \<^verbatim>\<open>_destroy\<close> set, \<^verbatim>\<open>cleanup\<close> over a listing of three files
  returns at once and visits none of them. But for a root directory with the
  three files \<open>a\<close>, \<open>b\<close>, \<open>c\<close>: once the pass is under way a call of
  \<^verbatim>\<open>destroy()\<close> cannot proceed, since \<^verbatim>\<open>run\<close> holds the monitor; the pass
  visits all three files and reaches \<^verbatim>\<open>timedWait\<close> with the flag still false;
  only then does \<^verbatim>\<open>destroy()\<close> set the flag, and the worker returns. The
  stop request waits for the whole pass.
\<close>

theorem C1_stop_request_during_pass:
  "cleanup True [RegularDesc ''a'' None, RegularDesc ''b'' None, RegularDesc ''c'' None]
     = (None, [])
   \<and> exec (init (seconds 60)) [Start, Check]
     = Some \<lparr>updater = \<lparr>updatePeriod = 60000000, destroy_flag = False\<rparr>, worker = InPass,
              trace = []\<rparr>
   \<and> exec (init (seconds 60)) [Start, Check, Destroy] = None
   \<and> exec (init (seconds 60))
        [Start, Check,
         Pass \<lparr>topDesc = Inr (DirectoryDesc (Inr
                  [RegularDesc ''a'' None, RegularDesc ''b'' None, RegularDesc ''c'' None])),
               isShutdownFromInterrupt = False\<rparr>]
     = Some \<lparr>updater = \<lparr>updatePeriod = 60000000, destroy_flag = False\<rparr>, worker = Waiting,
              trace = [GetBZ2Size ''a'', GetBZ2Size ''b'', GetBZ2Size ''c'',
                       TimedWait 60000000]\<rparr>
   \<and> exec (init (seconds 60))
        [Start, Check,
         Pass \<lparr>topDesc = Inr (DirectoryDesc (Inr
                  [RegularDesc ''a'' None, RegularDesc ''b'' None, RegularDesc ''c'' None])),
               isShutdownFromInterrupt = False\<rparr>,
         Destroy, Resume, Check]
     = Some \<lparr>updater = \<lparr>updatePeriod = 60000000, destroy_flag = True\<rparr>, worker = Returned,
              trace = [GetBZ2Size ''a'', GetBZ2Size ''b'', GetBZ2Size ''c'',
                       TimedWait 60000000]\<rparr>"
  by (simp add: init_def new_Updater_def seconds_def loop_body_def destroy_def)


section \<open>The command line\<close>

text \<open>
  C8 does not hold for an argument that is not the first: with the arguments
  \<^verbatim>\<open>--bogus --help\<close>, an argument is \<^verbatim>\<open>--help\<close>, yet the status is failure
  and what is written to the error stream is not the usage text alone.
\<close>

theorem C8_counterexample:
  "''--help'' \<in> set (drop 1 [''icepatchserver'', ''--bogus'', ''--help''])
   \<and> status (Server_run ''icepatchserver'' ''1.0.0'' [''icepatchserver'', ''--bogus'', ''--help'']
        \<lparr>Endpoints = ''tcp -p 10000'', Directory = [], UpdatePeriod = None,
         chdir_error = None\<rparr>) = EXIT_FAILURE
   \<and> EXIT_FAILURE \<noteq> EXIT_SUCCESS
   \<and> cerr (Server_run ''icepatchserver'' ''1.0.0'' [''icepatchserver'', ''--bogus'', ''--help'']
        \<lparr>Endpoints = ''tcp -p 10000'', Directory = [], UpdatePeriod = None,
         chdir_error = None\<rparr>) \<noteq> usage ''icepatchserver''"
  by (simp add: Server_run_def EXIT_FAILURE_def EXIT_SUCCESS_def usage_def)

text \<open>
  C8, for the first argument. \<^verbatim>\<open>Server::run\<close> decides on \<^verbatim>\<open>argv[1]\<close> alone,
  whatever follows it and whatever the configuration: \<^verbatim>\<open>-h\<close> or \<^verbatim>\<open>--help\<close>
  writes the usage text to the error stream, with status success; \<^verbatim>\<open>-v\<close> or
  \<^verbatim>\<open>--version\<close> writes the version to the output stream, with status
  success; anything else writes the error line and then the usage text to the
  error stream, with status failure. In all three cases no call is made: the
  adapter is neither created nor activated.
\<close>

theorem C8_first_argument_decides:
  "(arg = ''-h'' \<or> arg = ''--help'' \<longrightarrow>
      Server_run appName version (argv0 # arg # args) cfg
      = \<lparr>status = EXIT_SUCCESS, cerr = usage appName, cout = [], calls = []\<rparr>)
   \<and> (arg = ''-v'' \<or> arg = ''--version'' \<longrightarrow>
      Server_run appName version (argv0 # arg # args) cfg
      = \<lparr>status = EXIT_SUCCESS, cerr = [], cout = version @ ''\<newline>'', calls = []\<rparr>)
   \<and> (arg \<notin> {''-h'', ''--help'', ''-v'', ''--version''} \<longrightarrow>
      Server_run appName version (argv0 # arg # args) cfg
      = \<lparr>status = EXIT_FAILURE,
         cerr = appName @ '': unknown option `'' @ arg @ [CHR 0x27] @ ''\<newline>'' @ usage appName,
         cout = [], calls = []\<rparr>)
   \<and> CreateObjectAdapter \<notin> set (calls (Server_run appName version (argv0 # arg # args) cfg))
   \<and> Activate \<notin> set (calls (Server_run appName version (argv0 # arg # args) cfg))"
  by (auto simp: Server_run_def)

theorem C8_first_argument_decides_witness:
  "Server_run ''icepatchserver'' ''1.0.0'' [''icepatchserver'', ''--bogus'']
     \<lparr>Endpoints = ''tcp -p 10000'', Directory = [], UpdatePeriod = None, chdir_error = None\<rparr>
   = \<lparr>status = EXIT_FAILURE,
      cerr = ''icepatchserver: unknown option `--bogus'' @ [CHR 0x27] @ ''\<newline>''
             @ usage ''icepatchserver'',
      cout = [], calls = []\<rparr>
   \<and> Server_run ''icepatchserver'' ''1.0.0'' [''icepatchserver'', ''--help'', ''--bogus'']
     \<lparr>Endpoints = ''tcp -p 10000'', Directory = [], UpdatePeriod = None, chdir_error = None\<rparr>
   = \<lparr>status = EXIT_SUCCESS, cerr = usage ''icepatchserver'', cout = [], calls = []\<rparr>
   \<and> Server_run ''icepatchserver'' ''1.0.0'' [''icepatchserver'', ''-v'']
     \<lparr>Endpoints = ''tcp -p 10000'', Directory = [], UpdatePeriod = None, chdir_error = None\<rparr>
   = \<lparr>status = EXIT_SUCCESS, cerr = [], cout = ''1.0.0\<newline>'', calls = []\<rparr>"
  using C8_first_argument_decides [of "''--bogus''" "''icepatchserver''" "''1.0.0''"
          "''icepatchserver''" "[]"
          "\<lparr>Endpoints = ''tcp -p 10000'', Directory = [], UpdatePeriod = None,
            chdir_error = None\<rparr>"]
        C8_first_argument_decides [of "''--help''" "''icepatchserver''" "''1.0.0''"
          "''icepatchserver''" "[''--bogus'']"
          "\<lparr>Endpoints = ''tcp -p 10000'', Directory = [], UpdatePeriod = None,
            chdir_error = None\<rparr>"]
        C8_first_argument_decides [of "''-v''" "''icepatchserver''" "''1.0.0''"
          "''icepatchserver''" "[]"
          "\<lparr>Endpoints = ''tcp -p 10000'', Directory = [], UpdatePeriod = None,
            chdir_error = None\<rparr>"]
  by simp


end
